theory Spec2Isabelle
  imports Complex_Main "HOL-Library.Sublist" "HOL-Library.Multiset"
begin

section \<open>Values of the interpreter\<close>

text \<open>
  A CSV cell is a string; \<open>csv.DictReader\<close> stores Python's \<open>None\<close> under a header
  whose field is missing on a short line, so a cell is \<open>string option\<close> with
  \<open>None\<close> for Python's \<open>None\<close>. A row is the dict the reader yields, in header order.
  A line longer than the header adds one more entry, a list under the key \<open>None\<close>;
  neither function reads it and it is left out of a row.

  A Python \<open>float\<close> is modelled by an exact rational: rounding, infinities and NaN
  are outside the model. The orderings, sorts and maxima below are proved for any linear
  order, so they do not depend on how sums are rounded.
\<close>

type_synonym cell = "string option"

type_synonym ('k, 'v) dict = "('k \<times> 'v) list"

type_synonym row = "(string, cell) dict"

datatype exn = OSError | KeyError string | TypeError | ValueError | ZeroDivisionError

text \<open>
  What a tool returns before \<open>json.dumps\<close>: \<open>ErrorValue msg None\<close> is
  \<open>{"error": msg}\<close>, \<open>ErrorValue prefix (Some e)\<close> is \<open>{"error": prefix + str(e)}\<close>
  for the caught exception \<open>e\<close>, and \<open>Payload v\<close> is the success dict.
\<close>

datatype 'a tool_result = ErrorValue string "exn option" | Payload 'a

subsection \<open>Dicts in insertion order\<close>

definition dict_get :: "('k, 'v) dict \<Rightarrow> 'k \<Rightarrow> 'v \<Rightarrow> 'v" where
  \<comment> \<open>\<open>d.get(k, dflt)\<close>\<close>
  "dict_get d k dflt = (case map_of d k of None \<Rightarrow> dflt | Some v \<Rightarrow> v)"

fun dict_set :: "('k, 'v) dict \<Rightarrow> 'k \<Rightarrow> 'v \<Rightarrow> ('k, 'v) dict" where
  \<comment> \<open>\<open>d[k] = v\<close>: an existing key keeps its place, a new key goes last\<close>
  "dict_set [] k v = [(k, v)]"
| "dict_set ((k', v') # d) k v =
     (if k' = k then (k, v) # d else (k', v') # dict_set d k v)"

definition getitem :: "('k, 'v) dict \<Rightarrow> 'k \<Rightarrow> ('k \<Rightarrow> exn) \<Rightarrow> exn + 'v" where
  \<comment> \<open>\<open>d[k]\<close>, raising the given exception for a missing key\<close>
  "getitem d k err = (case map_of d k of None \<Rightarrow> Inl (err k) | Some v \<Rightarrow> Inr v)"

definition dict_of_items :: "('k \<times> 'v) list \<Rightarrow> ('k, 'v) dict" where
  \<comment> \<open>\<open>{k: v for k, v in items}\<close>\<close>
  "dict_of_items items = foldl (\<lambda>d (k, v). dict_set d k v) [] items"

subsection \<open>Builtins\<close>

fun py_sum :: "('a \<Rightarrow> exn + 'n::plus) \<Rightarrow> 'a list \<Rightarrow> 'n \<Rightarrow> exn + 'n" where
  \<comment> \<open>\<open>sum(f(x) for x in xs)\<close> from the start value; the first raise of \<open>f\<close> ends it\<close>
  "py_sum f [] acc = Inr acc"
| "py_sum f (x # xs) acc =
     (case f x of Inl e \<Rightarrow> Inl e | Inr v \<Rightarrow> py_sum f xs (acc + v))"

fun py_max :: "('a \<Rightarrow> 'b::linorder) \<Rightarrow> 'a list \<Rightarrow> exn + 'a" where
  \<comment> \<open>\<open>max(xs, key=key)\<close>: a later item replaces the maximum only when strictly greater\<close>
  "py_max key [] = Inl ValueError"
| "py_max key (x # xs) = Inr (foldl (\<lambda>m y. if key m < key y then y else m) x xs)"

definition py_sorted_reverse :: "('a \<Rightarrow> 'b::linorder) \<Rightarrow> 'a list \<Rightarrow> 'a list" where
  \<comment> \<open>\<open>sorted(xs, key=key, reverse=True)\<close>: reverse, stable ascending sort, reverse\<close>
  "py_sorted_reverse key xs = rev (sort_key key (rev xs))"

subsection \<open>The format \<open>f"${v:,.2f}"\<close>\<close>

definition digit_char :: "nat \<Rightarrow> char" where
  "digit_char n = ''0123456789'' ! (n mod 10)"

fun digits :: "nat \<Rightarrow> string" where
  "digits n = (if n < 10 then [digit_char n] else digits (n div 10) @ [digit_char n])"

definition pad3 :: "nat \<Rightarrow> string" where
  "pad3 n = [digit_char (n div 100), digit_char (n div 10), digit_char n]"

fun group_thousands :: "nat \<Rightarrow> string" where
  "group_thousands n =
     (if n < 1000 then digits n
      else group_thousands (n div 1000) @ '','' @ pad3 (n mod 1000))"

definition round_half_even :: "rat \<Rightarrow> int" where
  "round_half_even x =
     (let f = \<lfloor>x\<rfloor>; d = x - of_int f
      in if d < 1 / 2 then f else if 1 / 2 < d then f + 1
         else if even f then f else f + 1)"

definition format_money :: "rat \<Rightarrow> string" where
  "format_money v =
     (let c = nat (round_half_even (\<bar>v\<bar> * 100))
      in ''$'' @ (if v < 0 then ''-'' else '''') @ group_thousands (c div 100)
         @ ''.'' @ [digit_char (c mod 100 div 10), digit_char c])"

section \<open>read_sales_csv\<close>

record summary =
  total_rows :: nat
  columns :: "string list"
  sample_data :: "row list"
  date_range_first :: cell
  date_range_last :: cell

text \<open>
  The argument is what \<open>open\<close> and \<open>list(csv.DictReader(f))\<close> give for the path:
  \<open>Inl e\<close> when either raises \<open>e\<close>, \<open>Inr rows\<close> with the data rows otherwise.
\<close>

definition read_sales_csv :: "exn + row list \<Rightarrow> summary tool_result" where
  "read_sales_csv file =
     (case file of
        Inl e \<Rightarrow> ErrorValue ''Failed to read CSV: '' (Some e)
      | Inr rows \<Rightarrow>
          if rows = [] then ErrorValue ''CSV file is empty'' None
          else Payload \<lparr>
            total_rows = length rows,
            columns = map fst (hd rows),
            sample_data =
              (if length rows > 10 then take 5 rows @ drop (length rows - 5) rows else rows),
            date_range_first = dict_get (hd rows) ''Date'' (Some ''N/A''),
            date_range_last = dict_get (last rows) ''Date'' (Some ''N/A'') \<rparr>)"

section \<open>calculate_statistics\<close>

record top_entry =
  name :: cell
  revenue :: string

record stats =
  total_revenue :: string
  total_units_sold :: int
  average_revenue_per_transaction :: string
  number_of_transactions :: nat
  top_region :: top_entry
  top_product :: top_entry
  top_salesperson :: top_entry
  region_breakdown :: "(cell, string) dict"
  product_breakdown :: "(cell, string) dict"
  salesperson_breakdown :: "(cell, string) dict"

text \<open>
  The builtins \<open>float\<close> and \<open>int\<close> are parameters \<open>pyfloat\<close> and \<open>pyint\<close>: each
  takes the cell and gives the number or the exception it raises.
\<close>

definition row_revenue :: "(cell \<Rightarrow> exn + rat) \<Rightarrow> row \<Rightarrow> exn + rat" where
  \<comment> \<open>\<open>float(row['Revenue'])\<close>\<close>
  "row_revenue pyfloat r =
     (case getitem r ''Revenue'' KeyError of Inl e \<Rightarrow> Inl e | Inr c \<Rightarrow> pyfloat c)"

definition row_units :: "(cell \<Rightarrow> exn + int) \<Rightarrow> row \<Rightarrow> exn + int" where
  \<comment> \<open>\<open>int(row['Units_Sold'])\<close>\<close>
  "row_units pyint r =
     (case getitem r ''Units_Sold'' KeyError of Inl e \<Rightarrow> Inl e | Inr c \<Rightarrow> pyint c)"

fun revenue_by ::
  "(cell \<Rightarrow> exn + rat) \<Rightarrow> string \<Rightarrow> row list \<Rightarrow> (cell, rat) dict \<Rightarrow> exn + (cell, rat) dict"
where
  \<comment> \<open>the loop \<open>for row in rows: k = row[col]; revenue = float(row['Revenue']);
      d[k] = d.get(k, 0) + revenue\<close>\<close>
  "revenue_by pyfloat col [] d = Inr d"
| "revenue_by pyfloat col (r # rs) d =
     (case getitem r col KeyError of
        Inl e \<Rightarrow> Inl e
      | Inr k \<Rightarrow>
          (case row_revenue pyfloat r of
             Inl e \<Rightarrow> Inl e
           | Inr v \<Rightarrow> revenue_by pyfloat col rs (dict_set d k (dict_get d k 0 + v))))"

definition top_of :: "cell \<times> rat \<Rightarrow> top_entry" where
  "top_of t = \<lparr> name = fst t, revenue = format_money (snd t) \<rparr>"

definition breakdown :: "(cell, rat) dict \<Rightarrow> (cell, string) dict" where
  "breakdown d =
     dict_of_items (map (\<lambda>(k, v). (k, format_money v)) (py_sorted_reverse snd d))"

definition statistics ::
  "(cell \<Rightarrow> exn + rat) \<Rightarrow> (cell \<Rightarrow> exn + int) \<Rightarrow> exn + row list \<Rightarrow> exn + stats"
where
  \<comment> \<open>the body of the \<open>try\<close>\<close>
  "statistics pyfloat pyint file =
     (case file of Inl e \<Rightarrow> Inl e | Inr rows \<Rightarrow>
      case py_sum (row_revenue pyfloat) rows 0 of Inl e \<Rightarrow> Inl e | Inr total_rev \<Rightarrow>
      case py_sum (row_units pyint) rows 0 of Inl e \<Rightarrow> Inl e | Inr total_units \<Rightarrow>
      case revenue_by pyfloat ''Region'' rows [] of Inl e \<Rightarrow> Inl e | Inr region_revenue \<Rightarrow>
      case revenue_by pyfloat ''Product'' rows [] of Inl e \<Rightarrow> Inl e | Inr product_revenue \<Rightarrow>
      case revenue_by pyfloat ''Salesperson'' rows [] of Inl e \<Rightarrow> Inl e
        | Inr salesperson_revenue \<Rightarrow>
      case py_max snd region_revenue of Inl e \<Rightarrow> Inl e | Inr top_r \<Rightarrow>
      case py_max snd product_revenue of Inl e \<Rightarrow> Inl e | Inr top_p \<Rightarrow>
      case py_max snd salesperson_revenue of Inl e \<Rightarrow> Inl e | Inr top_s \<Rightarrow>
      if length rows = 0 then Inl ZeroDivisionError
      else Inr \<lparr>
        total_revenue = format_money total_rev,
        total_units_sold = total_units,
        average_revenue_per_transaction = format_money (total_rev / of_nat (length rows)),
        number_of_transactions = length rows,
        top_region = top_of top_r,
        top_product = top_of top_p,
        top_salesperson = top_of top_s,
        region_breakdown = breakdown region_revenue,
        product_breakdown = breakdown product_revenue,
        salesperson_breakdown = breakdown salesperson_revenue \<rparr>)"

definition calculate_statistics ::
  "(cell \<Rightarrow> exn + rat) \<Rightarrow> (cell \<Rightarrow> exn + int) \<Rightarrow> exn + row list \<Rightarrow> stats tool_result"
where
  "calculate_statistics pyfloat pyint file =
     (case statistics pyfloat pyint file of
        Inl e \<Rightarrow> ErrorValue ''Failed to calculate statistics: '' (Some e)
      | Inr s \<Rightarrow> Payload s)"

section \<open>Decimal literals\<close>

text \<open>
  \<open>float\<close> and \<open>int\<close> on the literals used in the examples below: an optional sign
  and decimal digits, which both builtins read as that integer, and \<open>None\<close>, on which
  both raise \<open>TypeError\<close>. The other strings Python accepts (a fraction, an exponent,
  surrounding blanks, underscores) are not examples here.
\<close>

definition digit_val :: "char \<Rightarrow> nat option" where
  "digit_val c = map_of
     [(CHR ''0'', 0), (CHR ''1'', 1), (CHR ''2'', 2), (CHR ''3'', 3), (CHR ''4'', 4),
      (CHR ''5'', 5), (CHR ''6'', 6), (CHR ''7'', 7), (CHR ''8'', 8), (CHR ''9'', 9)] c"

fun nat_literal :: "string \<Rightarrow> nat \<Rightarrow> nat option" where
  "nat_literal [] acc = Some acc"
| "nat_literal (c # cs) acc =
     (case digit_val c of None \<Rightarrow> None | Some d \<Rightarrow> nat_literal cs (10 * acc + d))"

definition int_literal :: "string \<Rightarrow> int option" where
  "int_literal s =
     (case s of
        [] \<Rightarrow> None
      | c # cs \<Rightarrow>
          if c = CHR ''-'' then (if cs = [] then None
                               else map_option (\<lambda>n. - int n) (nat_literal cs 0))
          else if c = CHR ''+'' then (if cs = [] then None
                                    else map_option int (nat_literal cs 0))
          else map_option int (nat_literal s 0))"

definition int_lit :: "cell \<Rightarrow> exn + int" where
  "int_lit c =
     (case c of
        None \<Rightarrow> Inl TypeError
      | Some s \<Rightarrow> (case int_literal s of None \<Rightarrow> Inl ValueError | Some i \<Rightarrow> Inr i))"

definition float_lit :: "cell \<Rightarrow> exn + rat" where
  "float_lit c =
     (case c of
        None \<Rightarrow> Inl TypeError
      | Some s \<Rightarrow> (case int_literal s of None \<Rightarrow> Inl ValueError | Some i \<Rightarrow> Inr (of_int i)))"

section \<open>Notions of the statements\<close>

text \<open>
  What one pass of a grouping loop reads from a row: the key in the column and the
  revenue, or the exception of the first of the two reads that raises.
\<close>

definition row_entry :: "(cell \<Rightarrow> exn + rat) \<Rightarrow> string \<Rightarrow> row \<Rightarrow> exn + (cell \<times> rat)" where
  "row_entry pyfloat col r =
     (case getitem r col KeyError of
        Inl e \<Rightarrow> Inl e
      | Inr k \<Rightarrow> (case row_revenue pyfloat r of Inl e \<Rightarrow> Inl e | Inr v \<Rightarrow> Inr (k, v)))"

definition add_entry :: "('k, 'n::{zero,plus}) dict \<Rightarrow> 'k \<times> 'n \<Rightarrow> ('k, 'n) dict" where
  \<comment> \<open>\<open>d[k] = d.get(k, 0) + v\<close>\<close>
  "add_entry d kv = dict_set d (fst kv) (dict_get d (fst kv) 0 + snd kv)"

definition group_total :: "'k \<Rightarrow> ('k \<times> 'n::monoid_add) list \<Rightarrow> 'n" where
  \<comment> \<open>the summed value of the entries with key \<open>k\<close>\<close>
  "group_total k kvs = sum_list (map snd (filter (\<lambda>p. fst p = k) kvs))"

definition first_seen_at :: "'k \<Rightarrow> ('k \<times> 'n) list \<Rightarrow> nat" where
  \<comment> \<open>the index of the first entry with key \<open>k\<close> (the length of the list when there is none)\<close>
  "first_seen_at k kvs = length (takeWhile (\<lambda>p. fst p \<noteq> k) kvs)"

primrec first_seen :: "'k list \<Rightarrow> 'k list" where
  \<comment> \<open>the keys in the order of their first occurrence\<close>
  "first_seen [] = []"
| "first_seen (k # ks) = k # filter (\<lambda>x. x \<noteq> k) (first_seen ks)"

definition row_well_formed :: "(cell \<Rightarrow> exn + rat) \<Rightarrow> (cell \<Rightarrow> exn + int) \<Rightarrow> row \<Rightarrow> bool" where
  \<comment> \<open>the five required columns are present, \<open>Revenue\<close> is read by \<open>float\<close> and
      \<open>Units_Sold\<close> by \<open>int\<close>\<close>
  "row_well_formed pyfloat pyint r \<longleftrightarrow>
     \<not> isl (row_revenue pyfloat r) \<and> \<not> isl (row_units pyint r)
     \<and> \<not> isl (getitem r ''Region'' KeyError) \<and> \<not> isl (getitem r ''Product'' KeyError)
     \<and> \<not> isl (getitem r ''Salesperson'' KeyError)"

definition is_top_of :: "(cell \<times> rat) list \<Rightarrow> top_entry \<Rightarrow> bool" where
  \<comment> \<open>the entry names a key of the grouping, carries its formatted total, no key has a
      larger total, and no key with the same total is seen earlier in the rows\<close>
  "is_top_of kvs t \<longleftrightarrow>
     name t \<in> fst ` set kvs
     \<and> revenue t = format_money (group_total (name t) kvs)
     \<and> (\<forall>k\<in>fst ` set kvs.
          group_total k kvs \<le> group_total (name t) kvs
          \<and> (group_total k kvs = group_total (name t) kvs
               \<longrightarrow> first_seen_at (name t) kvs \<le> first_seen_at k kvs))"

definition is_breakdown_of :: "(cell \<times> rat) list \<Rightarrow> (cell, string) dict \<Rightarrow> bool" where
  \<comment> \<open>each key of the grouping once, with its formatted total, in descending order of
      the totals (equal totals may follow each other)\<close>
  "is_breakdown_of kvs b \<longleftrightarrow>
     distinct (map fst b)
     \<and> fst ` set b = fst ` set kvs
     \<and> (\<forall>(k, s)\<in>set b. s = format_money (group_total k kvs))
     \<and> sorted_wrt (\<lambda>k k'. group_total k' kvs \<le> group_total k kvs) (map fst b)"

section \<open>Example datasets\<close>

definition sale :: "string \<Rightarrow> string \<Rightarrow> cell \<Rightarrow> cell \<Rightarrow> cell \<Rightarrow> row" where
  \<comment> \<open>a line of a file with the header \<open>Region,Revenue,Units_Sold,Product,Salesperson\<close>\<close>
  "sale region amount units product person =
     [(''Region'', Some region), (''Revenue'', Some amount), (''Units_Sold'', units),
      (''Product'', product), (''Salesperson'', person)]"

definition spec_example_rows :: "row list" where
  \<comment> \<open>the rows of the specification's example, with the two columns it gives\<close>
  "spec_example_rows =
     [[(''Region'', Some ''East''), (''Revenue'', Some ''100'')],
      [(''Region'', Some ''West''), (''Revenue'', Some ''50'')],
      [(''Region'', Some ''East''), (''Revenue'', Some ''30'')]]"

definition tied_rows :: "row list" where
  \<comment> \<open>East and West both sum to 130, products A and B both sum to 130\<close>
  "tied_rows =
     [sale ''East'' ''100'' (Some ''1'') (Some ''A'') (Some ''Ann''),
      sale ''West'' ''130'' (Some ''2'') (Some ''B'') (Some ''Bob''),
      sale ''East'' ''30'' (Some ''3'') (Some ''A'') (Some ''Cy'')]"

definition dated :: "string \<Rightarrow> row" where
  \<comment> \<open>a line of a file with the single column \<open>Date\<close>\<close>
  "dated s = [(''Date'', Some s)]"

definition twelve_rows :: "row list" where
  "twelve_rows = map dated
     [''d1'', ''d2'', ''d3'', ''d4'', ''d5'', ''d6'', ''d7'', ''d8'', ''d9'', ''d10'', ''d11'',
      ''d12'']"

definition eight_rows :: "row list" where
  "eight_rows = map dated [''d1'', ''d2'', ''d3'', ''d4'', ''d5'', ''d6'', ''d7'', ''d8'']"

definition tied_report :: stats where
  \<comment> \<open>the report of \<open>tied_rows\<close>\<close>
  "tied_report = \<lparr>
     total_revenue = ''$260.00'',
     total_units_sold = 6,
     average_revenue_per_transaction = ''$86.67'',
     number_of_transactions = 3,
     top_region = \<lparr> name = Some ''East'', revenue = ''$130.00'' \<rparr>,
     top_product = \<lparr> name = Some ''A'', revenue = ''$130.00'' \<rparr>,
     top_salesperson = \<lparr> name = Some ''Bob'', revenue = ''$130.00'' \<rparr>,
     region_breakdown = [(Some ''East'', ''$130.00''), (Some ''West'', ''$130.00'')],
     product_breakdown = [(Some ''A'', ''$130.00''), (Some ''B'', ''$130.00'')],
     salesperson_breakdown =
       [(Some ''Bob'', ''$130.00''), (Some ''Ann'', ''$100.00''), (Some ''Cy'', ''$30.00'')] \<rparr>"

section \<open>The sum and the grouping loops\<close>

lemma py_sum_foldl:
  "py_sum f xs acc = Inr t \<Longrightarrow> \<exists>vs. map f xs = map Inr vs \<and> t = foldl (+) acc vs"
proof (induction xs arbitrary: acc)
  case Nil
  then show ?case by simp
next
  case (Cons x xs)
  from Cons.prems obtain v where v: "f x = Inr v" and rest: "py_sum f xs (acc + v) = Inr t"
    by (auto split: sum.splits)
  from Cons.IH[OF rest] obtain vs where "map f xs = map Inr vs" "t = foldl (+) (acc + v) vs"
    by blast
  with v have "map f (x # xs) = map Inr (v # vs) \<and> t = foldl (+) acc (v # vs)" by simp
  then show ?case by blast
qed

lemma py_sum_Inl:
  "py_sum f xs acc = Inl e \<Longrightarrow> \<exists>x\<in>set xs. f x = Inl e"
  by (induction xs arbitrary: acc) (auto split: sum.splits)

lemma py_sum_total:
  "map f xs = map Inr vs \<Longrightarrow> py_sum f xs acc = Inr (foldl (+) acc vs)"
  by (induction xs arbitrary: acc vs) auto

lemma foldl_plus_sum_list:
  "foldl (+) (a :: 'n::monoid_add) vs = a + sum_list vs"
  by (induction vs arbitrary: a) (simp_all add: add.assoc)

lemma revenue_by_entries:
  "revenue_by F col rows d = Inr d' \<Longrightarrow>
     \<exists>kvs. map (row_entry F col) rows = map Inr kvs \<and> d' = foldl add_entry d kvs"
proof (induction rows arbitrary: d)
  case Nil
  then show ?case by simp
next
  case (Cons r rows)
  from Cons.prems obtain k v where k: "getitem r col KeyError = Inr k"
    and v: "row_revenue F r = Inr v"
    and rest: "revenue_by F col rows (dict_set d k (dict_get d k 0 + v)) = Inr d'"
    by (auto split: sum.splits)
  from Cons.IH[OF rest] obtain kvs where kvs: "map (row_entry F col) rows = map Inr kvs"
    "d' = foldl add_entry (dict_set d k (dict_get d k 0 + v)) kvs"
    by blast
  from k v have "row_entry F col r = Inr (k, v)" by (simp add: row_entry_def)
  with kvs have "map (row_entry F col) (r # rows) = map Inr ((k, v) # kvs)
      \<and> d' = foldl add_entry d ((k, v) # kvs)"
    by (simp add: add_entry_def)
  then show ?case by blast
qed

lemma revenue_by_Inl:
  "revenue_by F col rows d = Inl e \<Longrightarrow> \<exists>r\<in>set rows. row_entry F col r = Inl e"
proof (induction rows arbitrary: d)
  case Nil
  then show ?case by simp
next
  case (Cons r rows)
  show ?case
  proof (cases "row_entry F col r")
    case (Inl e')
    with Cons.prems have "e' = e" by (auto simp: row_entry_def split: sum.splits)
    with Inl show ?thesis by simp
  next
    case (Inr kv)
    with Cons.prems obtain d' where "revenue_by F col rows d' = Inl e"
      by (auto simp: row_entry_def split: sum.splits)
    from Cons.IH[OF this] show ?thesis by auto
  qed
qed

lemma revenue_by_total:
  "map (row_entry F col) rows = map Inr kvs \<Longrightarrow>
     revenue_by F col rows d = Inr (foldl add_entry d kvs)"
proof (induction rows arbitrary: d kvs)
  case Nil
  then show ?case by simp
next
  case (Cons r rows)
  then obtain kv kvs' where kvs: "kvs = kv # kvs'" "row_entry F col r = Inr kv"
    "map (row_entry F col) rows = map Inr kvs'"
    by (cases kvs) auto
  from kvs(2) have "getitem r col KeyError = Inr (fst kv)" "row_revenue F r = Inr (snd kv)"
    by (auto simp: row_entry_def split: sum.splits)
  with Cons.IH[OF kvs(3)] kvs(1) show ?case by (simp add: add_entry_def)
qed

lemma map_of_dict_set: "map_of (dict_set d k v) = (map_of d)(k \<mapsto> v)"
  by (induction d) (auto simp: fun_eq_iff)

lemma keys_dict_set:
  "map fst (dict_set d k v) = (if k \<in> set (map fst d) then map fst d else map fst d @ [k])"
proof (induction d)
  case Nil
  then show ?case by simp
next
  case (Cons p d)
  obtain k' v' where p: "p = (k', v')" by (cases p)
  show ?case
  proof (cases "k' = k")
    case True
    with p show ?thesis by simp
  next
    case False
    with p Cons.IH show ?thesis by (simp split: if_splits)
  qed
qed

lemma keys_add_entry:
  "map fst (add_entry d kv) = (if fst kv \<in> fst ` set d then map fst d else map fst d @ [fst kv])"
  by (simp add: add_entry_def keys_dict_set)

lemma keyset_add_entry: "fst ` set (add_entry d kv) = insert (fst kv) (fst ` set d)"
proof -
  have "fst ` set (add_entry d kv) = set (map fst (add_entry d kv))" by simp
  also have "\<dots> = insert (fst kv) (fst ` set d)"
    by (subst keys_add_entry) auto
  finally show ?thesis .
qed

lemma dict_get_add_entry:
  "dict_get (add_entry d kv) k 0 = dict_get d k 0 + (if fst kv = k then snd kv else (0::'n::monoid_add))"
  by (simp add: add_entry_def dict_get_def map_of_dict_set)

lemma keys_accumulate:
  "map fst (foldl add_entry d kvs) =
     map fst d @ filter (\<lambda>k. k \<notin> fst ` set d) (first_seen (map fst kvs))"
proof (induction kvs arbitrary: d)
  case Nil
  then show ?case by simp
next
  case (Cons kv kvs)
  show ?case
  proof (cases "fst kv \<in> fst ` set d")
    case True
    then have "filter (\<lambda>k. k \<notin> fst ` set d) (filter (\<lambda>x. x \<noteq> fst kv) (first_seen (map fst kvs)))
        = filter (\<lambda>k. k \<notin> fst ` set d) (first_seen (map fst kvs))"
      by (auto intro!: filter_cong)
    moreover from True have "insert (fst kv) (fst ` set d) = fst ` set d" by auto
    ultimately show ?thesis using True by (simp add: Cons.IH keys_add_entry keyset_add_entry)
  next
    case False
    note s = keyset_add_entry[of d kv]
    have "filter (\<lambda>k. k \<notin> insert (fst kv) (fst ` set d)) (first_seen (map fst kvs))
        = filter (\<lambda>k. k \<notin> fst ` set d) (filter (\<lambda>x. x \<noteq> fst kv) (first_seen (map fst kvs)))"
      by (auto intro!: filter_cong)
    with False s show ?thesis by (simp add: Cons.IH keys_add_entry)
  qed
qed

lemma dict_get_accumulate:
  "dict_get (foldl add_entry d kvs) k 0 = dict_get d k 0 + group_total k (kvs :: ('k \<times> 'n::monoid_add) list)"
  by (induction kvs arbitrary: d) (simp_all add: group_total_def dict_get_add_entry add.assoc)

section \<open>The maximum, the sort and the dict comprehension\<close>

lemma foldl_max_step:
  fixes key :: "'a \<Rightarrow> 'b::linorder"
  assumes "foldl (\<lambda>m y. if key m < key y then y else m) m0 ys = m"
  shows "(m = m0 \<and> (\<forall>y\<in>set ys. key y \<le> key m0))
       \<or> (\<exists>pre post. ys = pre @ m # post \<and> key m0 < key m
            \<and> (\<forall>y\<in>set pre. key y < key m) \<and> (\<forall>y\<in>set post. key y \<le> key m))"
  using assms
proof (induction ys arbitrary: m0)
  case Nil
  then show ?case by simp
next
  case (Cons y ys)
  show ?case
  proof (cases "key m0 < key y")
    case True
    with Cons.prems have "foldl (\<lambda>m y. if key m < key y then y else m) y ys = m" by simp
    from Cons.IH[OF this] show ?thesis
    proof
      assume "m = y \<and> (\<forall>z\<in>set ys. key z \<le> key y)"
      with True have "y # ys = [] @ m # ys \<and> key m0 < key m
          \<and> (\<forall>z\<in>set []. key z < key m) \<and> (\<forall>z\<in>set ys. key z \<le> key m)"
        by simp
      then show ?thesis by blast
    next
      assume "\<exists>pre post. ys = pre @ m # post \<and> key y < key m
            \<and> (\<forall>z\<in>set pre. key z < key m) \<and> (\<forall>z\<in>set post. key z \<le> key m)"
      then obtain pre post where h: "ys = pre @ m # post" "key y < key m"
        "\<forall>z\<in>set pre. key z < key m" "\<forall>z\<in>set post. key z \<le> key m"
        by blast
      with True have "y # ys = (y # pre) @ m # post \<and> key m0 < key m
          \<and> (\<forall>z\<in>set (y # pre). key z < key m) \<and> (\<forall>z\<in>set post. key z \<le> key m)"
        by auto
      then show ?thesis by blast
    qed
  next
    case False
    with Cons.prems have "foldl (\<lambda>m y. if key m < key y then y else m) m0 ys = m" by simp
    from Cons.IH[OF this] show ?thesis
    proof
      assume "m = m0 \<and> (\<forall>z\<in>set ys. key z \<le> key m0)"
      with False show ?thesis by auto
    next
      assume "\<exists>pre post. ys = pre @ m # post \<and> key m0 < key m
            \<and> (\<forall>z\<in>set pre. key z < key m) \<and> (\<forall>z\<in>set post. key z \<le> key m)"
      then obtain pre post where h: "ys = pre @ m # post" "key m0 < key m"
        "\<forall>z\<in>set pre. key z < key m" "\<forall>z\<in>set post. key z \<le> key m"
        by blast
      with False have "y # ys = (y # pre) @ m # post \<and> key m0 < key m
          \<and> (\<forall>z\<in>set (y # pre). key z < key m) \<and> (\<forall>z\<in>set post. key z \<le> key m)"
        by auto
      then show ?thesis by blast
    qed
  qed
qed

lemma py_max_first_maximum:
  fixes key :: "'a \<Rightarrow> 'b::linorder"
  assumes "py_max key xs = Inr m"
  shows "\<exists>pre post. xs = pre @ m # post
           \<and> (\<forall>y\<in>set pre. key y < key m) \<and> (\<forall>y\<in>set post. key y \<le> key m)"
proof (cases xs)
  case Nil
  with assms show ?thesis by simp
next
  case (Cons x ys)
  with assms have "foldl (\<lambda>m y. if key m < key y then y else m) x ys = m" by simp
  from foldl_max_step[OF this] show ?thesis
  proof
    assume "m = x \<and> (\<forall>y\<in>set ys. key y \<le> key x)"
    with Cons have "xs = [] @ m # ys \<and> (\<forall>y\<in>set []. key y < key m)
        \<and> (\<forall>y\<in>set ys. key y \<le> key m)"
      by simp
    then show ?thesis by blast
  next
    assume "\<exists>pre post. ys = pre @ m # post \<and> key x < key m
            \<and> (\<forall>y\<in>set pre. key y < key m) \<and> (\<forall>y\<in>set post. key y \<le> key m)"
    then obtain pre post where h: "ys = pre @ m # post" "key x < key m"
      "\<forall>y\<in>set pre. key y < key m" "\<forall>y\<in>set post. key y \<le> key m"
      by blast
    with Cons have "xs = (x # pre) @ m # post \<and> (\<forall>y\<in>set (x # pre). key y < key m)
        \<and> (\<forall>y\<in>set post. key y \<le> key m)"
      by auto
    then show ?thesis by blast
  qed
qed

lemma py_max_nonempty: "xs \<noteq> [] \<Longrightarrow> \<exists>m. py_max key xs = Inr m"
  by (cases xs) auto

lemma py_max_Inl: "py_max key xs = Inl e \<Longrightarrow> xs = [] \<and> e = ValueError"
  by (cases xs) auto

lemma py_sorted_reverse_sorted:
  "sorted_wrt (\<lambda>a b. key b \<le> key a) (py_sorted_reverse key xs)"
proof -
  have "sorted_wrt (\<lambda>a b. key a \<le> key b) (sort_key key (rev xs))"
    using sorted_sort_key[of key "rev xs"] by (simp add: sorted_map)
  then show ?thesis
    unfolding py_sorted_reverse_def by (simp add: sorted_wrt_rev)
qed

lemma py_sorted_reverse_mset: "mset (py_sorted_reverse key xs) = mset xs"
  by (simp add: py_sorted_reverse_def)

lemma py_sorted_reverse_set: "set (py_sorted_reverse key xs) = set xs"
  by (simp add: py_sorted_reverse_def)

lemma py_sorted_reverse_stable:
  "filter (\<lambda>y. key y = k) (py_sorted_reverse key xs) = filter (\<lambda>y. key y = k) xs"
proof -
  have "filter (\<lambda>y. key y = k) (py_sorted_reverse key xs)
      = rev (filter (\<lambda>y. key y = k) (sort_key key (rev xs)))"
    by (simp add: py_sorted_reverse_def rev_filter)
  also have "\<dots> = rev (filter (\<lambda>y. key y = k) (rev xs))"
    by (simp only: sort_key_stable)
  also have "\<dots> = filter (\<lambda>y. key y = k) xs"
    by (simp add: rev_filter)
  finally show ?thesis .
qed

lemma py_sorted_reverse_distinct_keys:
  "distinct (map f xs) \<Longrightarrow> distinct (map f (py_sorted_reverse key xs))"
proof -
  have "mset (map f (py_sorted_reverse key xs)) = mset (map f xs)"
    by (simp add: py_sorted_reverse_mset)
  then show "distinct (map f xs) \<Longrightarrow> distinct (map f (py_sorted_reverse key xs))"
    by (metis mset_eq_imp_distinct_iff)
qed

lemma py_sorted_reverse_hd:
  fixes key :: "'a \<Rightarrow> 'b::linorder"
  assumes "xs = pre @ m # post" and "\<forall>y\<in>set pre. key y < key m"
    and "\<forall>y\<in>set post. key y \<le> key m"
  shows "\<exists>rest. py_sorted_reverse key xs = m # rest"
proof -
  let ?s = "py_sorted_reverse key xs"
  from assms(1) have "m \<in> set ?s" by (simp add: py_sorted_reverse_set)
  then obtain z rest where s: "?s = z # rest" by (cases ?s) auto
  have "z \<in> set xs" using s py_sorted_reverse_set[of key xs] by (metis list.set_intros(1))
  with assms have le: "key z \<le> key m" by auto
  have "sorted_wrt (\<lambda>a b. key b \<le> key a) (z # rest)"
    using py_sorted_reverse_sorted[of key xs] s by simp
  with \<open>m \<in> set ?s\<close> s have "key m \<le> key z" by auto
  with le have eq: "key z = key m" by simp
  have "filter (\<lambda>y. key y = key m) ?s = filter (\<lambda>y. key y = key m) xs"
    by (rule py_sorted_reverse_stable)
  moreover have "filter (\<lambda>y. key y = key m) xs = m # filter (\<lambda>y. key y = key m) post"
  proof -
    from assms(2) have "\<forall>y\<in>set pre. key y \<noteq> key m" by auto
    then have "filter (\<lambda>y. key y = key m) pre = []" by (simp add: filter_empty_conv)
    with assms(1) show ?thesis by simp
  qed
  moreover have "filter (\<lambda>y. key y = key m) ?s = z # filter (\<lambda>y. key y = key m) rest"
    using s eq by simp
  ultimately have "z = m" by simp
  with s show ?thesis by blast
qed

lemma dict_set_fresh: "k \<notin> fst ` set d \<Longrightarrow> dict_set d k v = d @ [(k, v)]"
  by (induction d) auto

lemma dict_of_items_distinct:
  assumes "distinct (map fst xs)"
  shows "dict_of_items xs = xs"
proof -
  have "distinct (map fst (d @ xs)) \<Longrightarrow> foldl (\<lambda>d (k, v). dict_set d k v) d xs = d @ xs"
    for d :: "('a \<times> 'b) list" and xs
  proof (induction xs arbitrary: d)
    case Nil
    then show ?case by simp
  next
    case (Cons p xs)
    obtain k v where p: "p = (k, v)" by (cases p)
    from Cons.prems p have "k \<notin> fst ` set d" by auto
    then have "dict_set d k v = d @ [(k, v)]" by (rule dict_set_fresh)
    moreover from Cons.prems p have "distinct (map fst ((d @ [(k, v)]) @ xs))" by simp
    ultimately show ?case using Cons.IH[of "d @ [(k, v)]"] p by simp
  qed
  from this[of "[]" xs] assms show ?thesis by (simp add: dict_of_items_def)
qed

section \<open>Keys in first-seen order and group totals\<close>

lemma first_seen_set: "set (first_seen ks) = set ks"
  by (induction ks) auto

lemma first_seen_distinct: "distinct (first_seen ks)"
  by (induction ks) (auto simp: first_seen_set)

lemma filter_split:
  "filter P l = xs @ k # ys \<Longrightarrow> \<exists>us vs. l = us @ k # vs \<and> ys = filter P vs"
proof (induction l arbitrary: xs)
  case Nil
  then show ?case by simp
next
  case (Cons x l)
  show ?case
  proof (cases "P x")
    case False
    with Cons.prems have "filter P l = xs @ k # ys" by simp
    from Cons.IH[OF this] obtain us vs where "l = us @ k # vs" "ys = filter P vs" by blast
    then have "x # l = (x # us) @ k # vs \<and> ys = filter P vs" by simp
    then show ?thesis by blast
  next
    case True
    show ?thesis
    proof (cases xs)
      case Nil
      with True Cons.prems have "x # l = [] @ k # l \<and> ys = filter P l" by simp
      then show ?thesis by blast
    next
      case (Cons a xs')
      with True Cons.prems have "filter P l = xs' @ k # ys" by simp
      from Cons.IH[OF this] obtain us vs where "l = us @ k # vs" "ys = filter P vs" by blast
      then have "x # l = (x # us) @ k # vs \<and> ys = filter P vs" by simp
      then show ?thesis by blast
    qed
  qed
qed

lemma first_seen_order:
  "first_seen ks = xs @ k # ys \<Longrightarrow> k' \<in> set ys \<Longrightarrow>
     length (takeWhile (\<lambda>x. x \<noteq> k) ks) < length (takeWhile (\<lambda>x. x \<noteq> k') ks)"
proof (induction ks arbitrary: xs ys)
  case Nil
  then show ?case by simp
next
  case (Cons a ks)
  show ?case
  proof (cases xs)
    case Nil
    with Cons.prems(1) have "k = a" and "ys = filter (\<lambda>x. x \<noteq> a) (first_seen ks)" by auto
    with Cons.prems(2) have "k' \<noteq> a" by simp
    with \<open>k = a\<close> show ?thesis by simp
  next
    case (Cons b xs')
    with Cons.prems(1) have a: "b = a"
      and f: "filter (\<lambda>x. x \<noteq> a) (first_seen ks) = xs' @ k # ys" by auto
    from f have "k \<in> set (filter (\<lambda>x. x \<noteq> a) (first_seen ks))"
      and "k' \<in> set (filter (\<lambda>x. x \<noteq> a) (first_seen ks))"
      using Cons.prems(2) by simp_all
    then have ne: "k \<noteq> a" "k' \<noteq> a" by simp_all
    from filter_split[OF f] obtain us vs where uv: "first_seen ks = us @ k # vs"
      and "ys = filter (\<lambda>x. x \<noteq> a) vs"
      by blast
    with Cons.prems(2) have "k' \<in> set vs" by simp
    from Cons.IH[OF uv this] ne show ?thesis by simp
  qed
qed

lemma first_seen_at_keys:
  "first_seen_at k kvs = length (takeWhile (\<lambda>x. x \<noteq> k) (map fst kvs))"
  by (simp add: first_seen_at_def takeWhile_map comp_def)

lemma grouping_keys: "map fst (foldl add_entry [] kvs) = first_seen (map fst kvs)"
  using keys_accumulate[of "[]" kvs] by simp

lemma grouping_keyset: "fst ` set (foldl add_entry [] kvs) = fst ` set kvs"
proof -
  have "fst ` set (foldl add_entry [] kvs) = set (map fst (foldl add_entry [] kvs))" by simp
  also have "\<dots> = fst ` set kvs" by (simp only: grouping_keys first_seen_set) simp
  finally show ?thesis .
qed

lemma grouping_distinct: "distinct (map fst (foldl add_entry [] kvs))"
  by (simp only: grouping_keys first_seen_distinct)

lemma grouping_value:
  fixes kvs :: "('k \<times> 'n::monoid_add) list"
  assumes "(k, v) \<in> set (foldl add_entry [] kvs)"
  shows "v = group_total k kvs"
proof -
  from assms grouping_distinct[of kvs] have "map_of (foldl add_entry [] kvs) k = Some v"
    by simp
  then have "dict_get (foldl add_entry [] kvs) k 0 = v" by (simp add: dict_get_def)
  moreover have "dict_get (foldl add_entry [] kvs) k 0 = group_total k kvs"
    using dict_get_accumulate[of "[]" kvs k] by (simp add: dict_get_def)
  ultimately show ?thesis by simp
qed

lemma grouping_nonempty: "kvs \<noteq> [] \<Longrightarrow> foldl add_entry [] kvs \<noteq> []"
  using grouping_keyset[of kvs] by (cases kvs) auto

section \<open>The top entry and the breakdown of a grouping\<close>

lemma top_of_grouping:
  assumes "py_max snd (foldl add_entry [] kvs) = Inr t"
  shows "is_top_of kvs (top_of t)"
proof -
  let ?d = "foldl add_entry [] kvs"
  from py_max_first_maximum[OF assms] obtain pre post where d: "?d = pre @ t # post"
    and pre: "\<forall>y\<in>set pre. snd y < snd t" and post: "\<forall>y\<in>set post. snd y \<le> snd t"
    by blast
  from d have tin: "(fst t, snd t) \<in> set ?d" by simp
  then have tv: "snd t = group_total (fst t) kvs" by (rule grouping_value)
  from tin have "fst t \<in> fst ` set ?d" by (metis fst_conv image_eqI)
  then have tk: "fst t \<in> fst ` set kvs" by (simp only: grouping_keyset)
  have keys: "first_seen (map fst kvs) = map fst pre @ fst t # map fst post"
    using grouping_keys[of kvs] d by simp
  have "group_total k kvs \<le> snd t
      \<and> (group_total k kvs = snd t \<longrightarrow> first_seen_at (fst t) kvs \<le> first_seen_at k kvs)"
    if "k \<in> fst ` set kvs" for k
  proof -
    from that have "k \<in> fst ` set ?d" by (simp only: grouping_keyset)
    then obtain v where kv: "(k, v) \<in> set ?d" by auto
    then have v: "v = group_total k kvs" by (rule grouping_value)
    from kv d have cases: "(k, v) \<in> set pre \<or> (k, v) = t \<or> (k, v) \<in> set post" by auto
    with pre post have le: "v \<le> snd t" by auto
    have "first_seen_at (fst t) kvs \<le> first_seen_at k kvs" if eq: "v = snd t"
    proof (cases "k = fst t")
      case True
      then show ?thesis by simp
    next
      case False
      then have "(k, v) \<noteq> t" by auto
      moreover from pre eq have "(k, v) \<notin> set pre" by auto
      ultimately have "(k, v) \<in> set post" using cases by blast
      then have "k \<in> set (map fst post)" by (metis fst_conv image_eqI list.set_map)
      from first_seen_order[OF keys this] show ?thesis
        by (simp add: first_seen_at_keys)
    qed
    with le v show ?thesis by simp
  qed
  with tk tv show ?thesis by (simp add: is_top_of_def top_of_def)
qed

lemma breakdown_items:
  assumes "distinct (map fst d)"
  shows "breakdown d = map (\<lambda>(k, v). (k, format_money v)) (py_sorted_reverse snd d)"
proof -
  let ?s = "py_sorted_reverse snd d"
  have e: "map fst (map (\<lambda>(k, v). (k, format_money v)) ?s) = map fst ?s"
    by (simp add: case_prod_unfold comp_def)
  have "distinct (map fst ?s)"
    using assms by (rule py_sorted_reverse_distinct_keys)
  then have "distinct (map fst (map (\<lambda>(k, v). (k, format_money v)) ?s))"
    by (simp only: e)
  then show ?thesis unfolding breakdown_def by (rule dict_of_items_distinct)
qed

lemma breakdown_of_grouping: "is_breakdown_of kvs (breakdown (foldl add_entry [] kvs))"
proof -
  let ?d = "foldl add_entry [] kvs"
  let ?s = "py_sorted_reverse snd ?d"
  let ?b = "breakdown ?d"
  have b: "?b = map (\<lambda>(k, v). (k, format_money v)) ?s"
    using grouping_distinct by (rule breakdown_items)
  have keys: "map fst ?b = map fst ?s" by (simp add: b case_prod_unfold comp_def)
  have d1: "distinct (map fst ?b)"
    unfolding keys using grouping_distinct by (rule py_sorted_reverse_distinct_keys)
  have "fst ` set ?b = set (map fst ?b)" by simp
  also have "\<dots> = fst ` set ?s" unfolding keys by simp
  also have "\<dots> = fst ` set kvs" by (simp only: py_sorted_reverse_set grouping_keyset)
  finally have d2: "fst ` set ?b = fst ` set kvs" .
  have val: "v = group_total k kvs" if "(k, v) \<in> set ?s" for k v
    using that grouping_value[of k v kvs] by (simp add: py_sorted_reverse_set)
  have d3: "\<forall>(k, s)\<in>set ?b. s = format_money (group_total k kvs)"
    using val by (auto simp: b)
  have "sorted_wrt (\<lambda>a b. snd b \<le> snd a) ?s" by (rule py_sorted_reverse_sorted)
  then have "sorted_wrt (\<lambda>a b. group_total (fst b) kvs \<le> group_total (fst a) kvs) ?s"
  proof (rule sorted_wrt_mono_rel[rotated])
    fix x y assume "x \<in> set ?s" "y \<in> set ?s" "snd y \<le> snd x"
    moreover from \<open>x \<in> set ?s\<close> have "snd x = group_total (fst x) kvs"
      using val[of "fst x" "snd x"] by simp
    moreover from \<open>y \<in> set ?s\<close> have "snd y = group_total (fst y) kvs"
      using val[of "fst y" "snd y"] by simp
    ultimately show "group_total (fst y) kvs \<le> group_total (fst x) kvs" by simp
  qed
  then have d4: "sorted_wrt (\<lambda>k k'. group_total k' kvs \<le> group_total k kvs) (map fst ?b)"
    unfolding keys by (simp add: sorted_wrt_map)
  from d1 d2 d3 d4 show ?thesis by (simp add: is_breakdown_of_def)
qed

lemma breakdown_head:
  assumes "py_max snd d = Inr t" and "distinct (map fst d)"
  shows "\<exists>rest. breakdown d = (fst t, format_money (snd t)) # rest"
proof -
  from py_max_first_maximum[OF assms(1)] obtain pre post where "d = pre @ t # post"
    "\<forall>y\<in>set pre. snd y < snd t" "\<forall>y\<in>set post. snd y \<le> snd t"
    by blast
  from py_sorted_reverse_hd[OF this] obtain rest where "py_sorted_reverse snd d = t # rest"
    by blast
  with breakdown_items[OF assms(2)] show ?thesis by (simp add: case_prod_unfold)
qed

section \<open>What a successful run has computed\<close>

lemma calculate_statistics_Payload:
  "calculate_statistics F I file = Payload st \<longleftrightarrow> statistics F I file = Inr st"
  by (simp add: calculate_statistics_def split: sum.splits)

lemma calculate_statistics_ErrorValue:
  "statistics F I file = Inl e \<Longrightarrow>
     calculate_statistics F I file = ErrorValue ''Failed to calculate statistics: '' (Some e)"
  by (simp add: calculate_statistics_def)

lemma statistics_Inr:
  assumes "statistics F I (Inr rows) = Inr st"
  shows "\<exists>tot un rr pr sr tr tp ts.
     py_sum (row_revenue F) rows 0 = Inr tot \<and> py_sum (row_units I) rows 0 = Inr un
     \<and> revenue_by F ''Region'' rows [] = Inr rr \<and> revenue_by F ''Product'' rows [] = Inr pr
     \<and> revenue_by F ''Salesperson'' rows [] = Inr sr
     \<and> py_max snd rr = Inr tr \<and> py_max snd pr = Inr tp \<and> py_max snd sr = Inr ts
     \<and> rows \<noteq> []
     \<and> total_revenue st = format_money tot \<and> total_units_sold st = un
     \<and> average_revenue_per_transaction st = format_money (tot / of_nat (length rows))
     \<and> number_of_transactions st = length rows
     \<and> top_region st = top_of tr \<and> top_product st = top_of tp \<and> top_salesperson st = top_of ts
     \<and> region_breakdown st = breakdown rr \<and> product_breakdown st = breakdown pr
     \<and> salesperson_breakdown st = breakdown sr"
  using assms by (auto simp: statistics_def split: sum.splits if_splits)


lemma grouping_of_rows:
  assumes "revenue_by F col rows [] = Inr d" and "py_max snd d = Inr t"
  shows "\<exists>kvs. map (row_entry F col) rows = map Inr kvs
           \<and> is_top_of kvs (top_of t) \<and> is_breakdown_of kvs (breakdown d)
           \<and> breakdown d \<noteq> [] \<and> hd (breakdown d) = (name (top_of t), revenue (top_of t))
           \<and> map_of (breakdown d) (name (top_of t)) = Some (revenue (top_of t))"
proof -
  from revenue_by_entries[OF assms(1)] obtain kvs
    where kvs: "map (row_entry F col) rows = map Inr kvs" and d: "d = foldl add_entry [] kvs"
    by blast
  from assms(2) d have "is_top_of kvs (top_of t)" by (simp add: top_of_grouping)
  moreover from d have "is_breakdown_of kvs (breakdown d)" by (simp add: breakdown_of_grouping)
  moreover from d have "distinct (map fst d)" by (simp add: grouping_distinct)
  from breakdown_head[OF assms(2) this] obtain rest
    where "breakdown d = (fst t, format_money (snd t)) # rest" by blast
  then have "breakdown d \<noteq> [] \<and> hd (breakdown d) = (name (top_of t), revenue (top_of t))
      \<and> map_of (breakdown d) (name (top_of t)) = Some (revenue (top_of t))"
    by (simp add: top_of_def)
  ultimately show ?thesis using kvs by blast
qed

lemma row_entry_Inr:
  "row_entry F col r = Inr kv \<Longrightarrow> \<not> isl (getitem r col KeyError) \<and> \<not> isl (row_revenue F r)"
  by (auto simp: row_entry_def split: sum.splits)

lemma map_Inr_not_isl: "map f xs = map Inr ys \<Longrightarrow> x \<in> set xs \<Longrightarrow> \<not> isl (f x)"
proof (induction xs arbitrary: ys)
  case Nil
  then show ?case by simp
next
  case (Cons a xs)
  then obtain y ys' where "ys = y # ys'" by (cases ys) auto
  with Cons show ?case by auto
qed

lemma map_Inr_entry:
  "map (row_entry F col) rows = map Inr kvs \<Longrightarrow> r \<in> set rows \<Longrightarrow>
     \<not> isl (getitem r col KeyError)"
proof -
  assume a: "map (row_entry F col) rows = map Inr kvs" "r \<in> set rows"
  then have "\<not> isl (row_entry F col r)" by (rule map_Inr_not_isl)
  then obtain kv where "row_entry F col r = Inr kv" by (cases "row_entry F col r") auto
  then show ?thesis using row_entry_Inr by blast
qed

lemma statistics_rows_well_formed:
  assumes "statistics F I (Inr rows) = Inr st" and "r \<in> set rows"
  shows "row_well_formed F I r"
proof -
  from statistics_Inr[OF assms(1)] obtain tot un rr pr sr
    where s: "py_sum (row_revenue F) rows 0 = Inr tot" "py_sum (row_units I) rows 0 = Inr un"
      "revenue_by F ''Region'' rows [] = Inr rr" "revenue_by F ''Product'' rows [] = Inr pr"
      "revenue_by F ''Salesperson'' rows [] = Inr sr"
    by blast
  from py_sum_foldl[OF s(1)] obtain vs where "map (row_revenue F) rows = map Inr vs" by blast
  from map_Inr_not_isl[OF this assms(2)] have w1: "\<not> isl (row_revenue F r)" .
  from py_sum_foldl[OF s(2)] obtain us where "map (row_units I) rows = map Inr us" by blast
  from map_Inr_not_isl[OF this assms(2)] have w2: "\<not> isl (row_units I r)" .
  from revenue_by_entries[OF s(3)] obtain rs
    where "map (row_entry F ''Region'') rows = map Inr rs" by blast
  from map_Inr_entry[OF this assms(2)] have w3: "\<not> isl (getitem r ''Region'' KeyError)" .
  from revenue_by_entries[OF s(4)] obtain ps
    where "map (row_entry F ''Product'') rows = map Inr ps" by blast
  from map_Inr_entry[OF this assms(2)] have w4: "\<not> isl (getitem r ''Product'' KeyError)" .
  from revenue_by_entries[OF s(5)] obtain ss
    where "map (row_entry F ''Salesperson'') rows = map Inr ss" by blast
  from map_Inr_entry[OF this assms(2)]
  have w5: "\<not> isl (getitem r ''Salesperson'' KeyError)" .
  from w1 w2 w3 w4 w5 show ?thesis by (simp add: row_well_formed_def)
qed

section \<open>The Loader on a file without data rows\<close>

text \<open>
  C5. A readable file with a header and no data row gives \<open>rows = []\<close>. On it
  \<open>read_sales_csv\<close> returns the error value \<open>{"error": "CSV file is empty"}\<close>, whose
  message contains the word "empty"; the result is an error value and not a summary, and
  it is returned, not raised.
\<close>

theorem read_sales_csv_empty:
  "read_sales_csv (Inr []) = ErrorValue ''CSV file is empty'' None
   \<and> sublist ''empty'' ''CSV file is empty''"
proof -
  have "''CSV file is empty'' = ''CSV file is '' @ ''empty'' @ []" by simp
  then have "sublist ''empty'' ''CSV file is empty''"
    unfolding sublist_def by blast
  then show ?thesis by (simp add: read_sales_csv_def)
qed

section \<open>The Aggregator on a file without data rows\<close>

text \<open>
  C4, as the code has it. With no data row the three groupings are empty and
  \<open>max\<close> of the region grouping raises \<open>ValueError\<close> before the average is
  computed; \<open>calculate_statistics\<close> returns that exception as an error value, whatever
  \<open>float\<close> and \<open>int\<close> do.
\<close>

theorem calculate_statistics_no_rows:
  "calculate_statistics pyfloat pyint (Inr []) =
     ErrorValue ''Failed to calculate statistics: '' (Some ValueError)"
  by (simp add: calculate_statistics_def statistics_def)

text \<open>
  C4, as stated, fails: on the dataset with no row the caught exception is not a
  division by zero.
\<close>

theorem calculate_statistics_no_rows_not_zero_division:
  "calculate_statistics float_lit int_lit (Inr []) =
     ErrorValue ''Failed to calculate statistics: '' (Some ValueError)
   \<and> calculate_statistics float_lit int_lit (Inr []) \<noteq>
     ErrorValue ''Failed to calculate statistics: '' (Some ZeroDivisionError)"
  by (simp add: calculate_statistics_def statistics_def)

end
